theory Spec2Isabelle
  imports Main
begin

section \<open>JavaScript strings\<close>

text \<open>
  A JavaScript string is modelled as a \<^typ>\<open>string\<close>; a \<^typ>\<open>char\<close> stands for one code
  unit below 256. \<open>is_space\<close> holds on the code units of that range that the methods
  \<^verbatim>\<open>trim\<close>, \<^verbatim>\<open>trimEnd\<close> and the regular-expression class \<^verbatim>\<open>\s\<close> treat as white space
  (tab, line feed, vertical tab, form feed, carriage return, space, no-break space).
\<close>

definition is_space :: "char \<Rightarrow> bool" where
  "is_space c = (c \<in> set [CHR 0x09, CHR 0x0A, CHR 0x0B, CHR 0x0C, CHR 0x0D, CHR 0x20, CHR 0xA0])"

definition is_digit :: "char \<Rightarrow> bool" where
  "is_digit c = (c \<in> set ''0123456789'')"

definition trimStart :: "string \<Rightarrow> string" where
  "trimStart s = dropWhile is_space s"

definition trimEnd :: "string \<Rightarrow> string" where
  "trimEnd s = rev (dropWhile is_space (rev s))"

definition trim :: "string \<Rightarrow> string" where
  "trim s = trimStart (trimEnd s)"

definition startsWith :: "string \<Rightarrow> string \<Rightarrow> bool" where
  "startsWith s p = (take (length p) s = p)"

text \<open>\<^verbatim>\<open>s.split('\n')\<close>: never empty, one more piece than there are line feeds.\<close>

fun split_nl :: "string \<Rightarrow> string list" where
  "split_nl [] = [[]]"
| "split_nl (c # cs) =
     (if c = CHR 0x0A then [] # split_nl cs
      else (case split_nl cs of [] \<Rightarrow> [[c]] | l # ls \<Rightarrow> (c # l) # ls))"

text \<open>\<^verbatim>\<open>xs.join(sep)\<close>.\<close>

fun join :: "string \<Rightarrow> string list \<Rightarrow> string" where
  "join sep [] = []"
| "join sep [x] = x"
| "join sep (x # y # ys) = x @ sep @ join sep (y # ys)"

text \<open>
  \<^verbatim>\<open>s.replace(/^C\s/, '')\<close> for a one-character class \<open>C\<close>: the first two characters are
  removed when the first is in the class and the second is white space.
\<close>

definition replaceLead :: "(char \<Rightarrow> bool) \<Rightarrow> string \<Rightarrow> string" where
  "replaceLead cls s =
     (case s of c # w # r \<Rightarrow> if cls c \<and> is_space w then r else s | _ \<Rightarrow> s)"

section \<open>Section extraction\<close>

text \<open>\<^verbatim>\<open>extractSections\<close>: the lines that start with \<^verbatim>\<open>"# "\<close>, each with \<^verbatim>\<open>/^#\s/\<close> removed and
  trimmed.\<close>

definition extractSections :: "string \<Rightarrow> string list" where
  "extractSections markdown =
     map (\<lambda>l. trim (replaceLead (\<lambda>c. c = CHR ''#'') l))
       (filter (\<lambda>l. startsWith l ''# '') (split_nl markdown))"

section \<open>The editor's JSON document\<close>

text \<open>
  \<^verbatim>\<open>JSONContent\<close> of the editor: every field is optional. \<open>node_type\<close> is the field
  \<^verbatim>\<open>type\<close> (an absent type is the empty string, which no case of the serializer matches),
  \<open>attrs_level\<close> is \<^verbatim>\<open>attrs?.level\<close>, \<open>text'\<close> is \<^verbatim>\<open>text\<close>.
\<close>

datatype mark = Mark (mark_type: string)

datatype node = Node
  (node_type: string)
  (attrs_level: "nat option")
  (text': "string option")
  (marks: "mark list option")
  (content: "node list option")

text \<open>The node shapes that \<^verbatim>\<open>parseMarkdownToJSON\<close> builds.\<close>

definition textNode :: "string \<Rightarrow> node" where
  "textNode t = Node ''text'' None (Some t) None None"

definition headingNode :: "nat \<Rightarrow> string \<Rightarrow> node" where
  "headingNode level t = Node ''heading'' (Some level) None None (Some [textNode t])"

definition paragraphNode :: "string \<Rightarrow> node" where
  "paragraphNode t = Node ''paragraph'' None None None (Some [textNode t])"

definition listItemNode :: "string \<Rightarrow> node" where
  "listItemNode t = Node ''listItem'' None None None (Some [paragraphNode t])"

definition listNode :: "string \<Rightarrow> node list \<Rightarrow> node" where
  "listNode kind items = Node kind None None None (Some items)"

definition blockquoteNode :: "string \<Rightarrow> node" where
  "blockquoteNode t = Node ''blockquote'' None None None (Some [paragraphNode t])"

definition codeBlockNode :: "string \<Rightarrow> node" where
  "codeBlockNode t = Node ''codeBlock'' None None None (Some [textNode t])"

definition horizontalRuleNode :: node where
  "horizontalRuleNode = Node ''horizontalRule'' None None None None"

definition docNode :: "node list \<Rightarrow> node" where
  "docNode blocks = Node ''doc'' None None None (Some blocks)"

section \<open>serializeToMarkdown\<close>

text \<open>Optional chaining: \<^verbatim>\<open>n?.content?.[0]\<close> and \<^verbatim>\<open>n?.text || ''\<close>.\<close>

fun firstChild :: "node option \<Rightarrow> node option" where
  "firstChild None = None"
| "firstChild (Some n) = (case content n of Some (c # _) \<Rightarrow> Some c | _ \<Rightarrow> None)"

fun textOrEmpty :: "node option \<Rightarrow> string" where
  "textOrEmpty None = []"
| "textOrEmpty (Some n) = (case text' n of Some t \<Rightarrow> t | None \<Rightarrow> [])"

text \<open>The body of \<^verbatim>\<open>c.marks.forEach\<close>: three tests in a row on one mark.\<close>

definition wrapMark :: "mark \<Rightarrow> string \<Rightarrow> string" where
  "wrapMark m t =
     (let t1 = (if mark_type m = ''bold'' then ''**'' @ t @ ''**'' else t);
          t2 = (if mark_type m = ''italic'' then ''*'' @ t1 @ ''*'' else t1)
      in if mark_type m = ''code'' then ''`'' @ t2 @ ''`'' else t2)"

text \<open>The delimiter a mark stands for; an unknown mark has none.\<close>

definition delimiter :: "mark \<Rightarrow> string" where
  "delimiter m =
     (if mark_type m = ''bold'' then ''**''
      else if mark_type m = ''italic'' then ''*''
      else if mark_type m = ''code'' then ''`''
      else [])"

text \<open>One inline run of a paragraph.\<close>

definition serializeRun :: "node \<Rightarrow> string" where
  "serializeRun c =
     (if node_type c = ''text'' then
        (case marks c of
           Some ms \<Rightarrow> fold wrapMark ms (textOrEmpty (Some c))
         | None \<Rightarrow> textOrEmpty (Some c))
      else [])"

text \<open>Decimal numeral of \<^verbatim>\<open>${i + 1}\<close>.\<close>

fun decimal :: "nat \<Rightarrow> string" where
  "decimal n =
     (if n < 10 then [char_of (48 + n)]
      else decimal (n div 10) @ [char_of (48 + n mod 10)])"

declare decimal.simps [simp del]

text \<open>The text of a list item or a quotation: \<^verbatim>\<open>li.content?.[0]?.content?.[0]?.text || ''\<close>.\<close>

definition innerText :: "node \<Rightarrow> string" where
  "innerText li = textOrEmpty (firstChild (firstChild (Some li)))"

fun numbered :: "nat \<Rightarrow> node list \<Rightarrow> string list" where
  "numbered i [] = []"
| "numbered i (li # lis) = (decimal (i + 1) @ ''. '' @ innerText li) # numbered (i + 1) lis"

text \<open>The callback of \<^verbatim>\<open>json.content.map\<close>: one block to its Markdown.\<close>

definition serializeBlock :: "node \<Rightarrow> string" where
  "serializeBlock node =
     (if node_type node = ''heading'' then
        (let level = (case attrs_level node of Some l \<Rightarrow> if l = 0 then 1 else l | None \<Rightarrow> 1);
             t = (case content node of Some cs \<Rightarrow> concat (map (\<lambda>c. textOrEmpty (Some c)) cs)
                  | None \<Rightarrow> [])
         in replicate level (CHR ''#'') @ '' '' @ t @ [CHR 0x0A, CHR 0x0A])
      else if node_type node = ''paragraph'' then
        (let pText = (case content node of Some cs \<Rightarrow> concat (map serializeRun cs)
                      | None \<Rightarrow> [])
         in if pText \<noteq> [] then pText @ [CHR 0x0A, CHR 0x0A] else [CHR 0x0A])
      else if node_type node = ''bulletList'' then
        (case content node of
           Some lis \<Rightarrow> join [CHR 0x0A] (map (\<lambda>li. ''- '' @ innerText li) lis)
         | None \<Rightarrow> []) @ [CHR 0x0A, CHR 0x0A]
      else if node_type node = ''orderedList'' then
        (case content node of
           Some lis \<Rightarrow> join [CHR 0x0A] (numbered 0 lis)
         | None \<Rightarrow> []) @ [CHR 0x0A, CHR 0x0A]
      else if node_type node = ''codeBlock'' then
        ''```'' @ [CHR 0x0A] @ textOrEmpty (firstChild (Some node)) @ [CHR 0x0A] @ ''```''
          @ [CHR 0x0A, CHR 0x0A]
      else if node_type node = ''blockquote'' then
        ''> '' @ innerText node @ [CHR 0x0A, CHR 0x0A]
      else if node_type node = ''horizontalRule'' then
        ''---'' @ [CHR 0x0A, CHR 0x0A]
      else [])"

definition serializeToMarkdown :: "node \<Rightarrow> string" where
  "serializeToMarkdown json =
     (case content json of
        None \<Rightarrow> []
      | Some blocks \<Rightarrow> trim (concat (map serializeBlock blocks)))"

section \<open>parseMarkdownToJSON\<close>

text \<open>\<^verbatim>\<open>line.match(/^#+/)?.[0].length || 1\<close> and \<^verbatim>\<open>line.replace(/^#+\s/, '')\<close>.\<close>

definition headingLevel :: "string \<Rightarrow> nat" where
  "headingLevel line =
     (let n = length (takeWhile (\<lambda>c. c = CHR ''#'') line) in if n = 0 then 1 else n)"

definition stripHashes :: "string \<Rightarrow> string" where
  "stripHashes line =
     (case dropWhile (\<lambda>c. c = CHR ''#'') line of
        w # r \<Rightarrow> if takeWhile (\<lambda>c. c = CHR ''#'') line \<noteq> [] \<and> is_space w then r else line
      | [] \<Rightarrow> line)"

text \<open>\<^verbatim>\<open>/^\d+\.\s/.test(line)\<close> and \<^verbatim>\<open>line.replace(/^\d+\.\s/, '')\<close>.\<close>

definition orderedPrefix :: "string \<Rightarrow> bool" where
  "orderedPrefix line =
     (takeWhile is_digit line \<noteq> [] \<and>
      (case dropWhile is_digit line of
         d # w # _ \<Rightarrow> d = CHR ''.'' \<and> is_space w
       | _ \<Rightarrow> False))"

definition stripOrdered :: "string \<Rightarrow> string" where
  "stripOrdered line =
     (if orderedPrefix line then drop 2 (dropWhile is_digit line) else line)"

text \<open>
  The scan keeps \<^verbatim>\<open>content\<close> and \<^verbatim>\<open>currentList\<close>. \<^verbatim>\<open>currentList\<close> is a reference to a list
  node that was pushed onto \<^verbatim>\<open>content\<close>, so it is the index of that node in \<^verbatim>\<open>content\<close>, and
  pushing an item onto it updates \<^verbatim>\<open>content\<close> at that index.
\<close>

definition pushItem :: "node list \<Rightarrow> nat \<Rightarrow> node \<Rightarrow> node list" where
  "pushItem cont j item =
     (if j < length cont then
        cont[j := (case cont ! j of
                     Node ty lv tx mk (Some items) \<Rightarrow> Node ty lv tx mk (Some (items @ [item]))
                   | n \<Rightarrow> n)]
      else cont)"

text \<open>\<^verbatim>\<open>if (!currentList || currentList.type !== kind) { currentList = ...; content.push(currentList) }\<close>\<close>

definition openList :: "string \<Rightarrow> node list \<Rightarrow> nat option \<Rightarrow> node list \<times> nat" where
  "openList kind cont currentList =
     (case currentList of
        Some j \<Rightarrow>
          if j < length cont \<and> node_type (cont ! j) = kind then (cont, j)
          else (cont @ [listNode kind []], length cont)
      | None \<Rightarrow> (cont @ [listNode kind []], length cont))"

definition notFence :: "string \<Rightarrow> bool" where
  "notFence l = (\<not> startsWith l ''```'')"

function parseLines :: "node list \<Rightarrow> nat option \<Rightarrow> string list \<Rightarrow> node list" where
  "parseLines cont currentList [] = cont"
| "parseLines cont currentList (raw # rest) =
     (let line = trimEnd raw in
      if line = [] then parseLines cont currentList rest
      else if startsWith line ''#'' then
        parseLines (cont @ [headingNode (headingLevel line) (stripHashes line)]) currentList rest
      else if startsWith line ''- '' \<or> startsWith line ''* '' then
        (case openList ''bulletList'' cont currentList of
           (cont', j) \<Rightarrow>
             parseLines
               (pushItem cont' j
                  (listItemNode (replaceLead (\<lambda>c. c = CHR ''-'' \<or> c = CHR ''*'') line)))
               (Some j) rest)
      else if orderedPrefix line then
        (case openList ''orderedList'' cont currentList of
           (cont', j) \<Rightarrow>
             parseLines (pushItem cont' j (listItemNode (stripOrdered line))) (Some j) rest)
      else if startsWith line ''> '' then
        parseLines (cont @ [blockquoteNode (replaceLead (\<lambda>c. c = CHR ''>'') line)]) None rest
      else if startsWith line ''```'' then
        parseLines
          (cont @ [codeBlockNode
                     (trim (concat (map (\<lambda>l. l @ [CHR 0x0A]) (takeWhile notFence rest))))])
          None (drop 1 (dropWhile notFence rest))
      else if line = ''---'' \<or> line = ''***'' then
        parseLines (cont @ [horizontalRuleNode]) None rest
      else parseLines (cont @ [paragraphNode line]) None rest)"
  by pat_completeness auto
termination
proof (relation "measure (\<lambda>(cont, currentList, ls). length ls)")
  show "wf (measure (\<lambda>(cont, currentList, ls). length ls))" by simp
next
  fix cont :: "node list" and currentList :: "nat option" and raw :: string
    and rest :: "string list" and line
  have "length (dropWhile notFence rest) \<le> length rest"
    by (rule length_dropWhile_le)
  then show "((cont @ [codeBlockNode (trim (concat (map (\<lambda>l. l @ [CHR 0x0A])
                 (takeWhile notFence rest))))], None, drop 1 (dropWhile notFence rest)),
              cont, currentList, raw # rest)
             \<in> measure (\<lambda>(cont, currentList, ls). length ls)"
    by simp
qed simp_all

definition parseMarkdownToJSON :: "string \<Rightarrow> node" where
  "parseMarkdownToJSON markdown = docNode (parseLines [] None (split_nl markdown))"

section \<open>Section metadata\<close>

text \<open>Timestamps are what \<^verbatim>\<open>Date.now()\<close> returns, milliseconds since the epoch, or the
  literal 0 of a freshly scaffolded section: natural numbers.\<close>

record SectionMeta =
  id' :: string
  editedAt :: nat
  locked :: bool

text \<open>The metadata map of \<^verbatim>\<open>handleDocUpdate\<close> (an edit made by the user).\<close>

definition reconcileUserEdit :: "SectionMeta list \<Rightarrow> string list \<Rightarrow> nat \<Rightarrow> SectionMeta list" where
  "reconcileUserEdit prev currentHeaders now =
     map (\<lambda>header.
            case find (\<lambda>s. id' s = header) prev of
              Some existing \<Rightarrow> existing\<lparr>editedAt := now\<rparr>
            | None \<Rightarrow> \<lparr>id' = header, editedAt = now, locked = False\<rparr>)
       currentHeaders"

text \<open>The metadata map of \<^verbatim>\<open>handleSendMessage\<close> (a document rewritten by the model).\<close>

definition reconcileAIEdit :: "SectionMeta list \<Rightarrow> string list \<Rightarrow> nat \<Rightarrow> SectionMeta list" where
  "reconcileAIEdit prev currentHeaders now =
     map (\<lambda>header.
            case find (\<lambda>s. id' s = header) prev of
              Some existing \<Rightarrow> existing
            | None \<Rightarrow> \<lparr>id' = header, editedAt = now, locked = False\<rparr>)
       currentHeaders"

definition reconcile :: "SectionMeta list \<Rightarrow> string list \<Rightarrow> nat \<Rightarrow> bool \<Rightarrow> SectionMeta list" where
  "reconcile previousMeta currentTitles now editedByUser =
     (if editedByUser then reconcileUserEdit previousMeta currentTitles now
      else reconcileAIEdit previousMeta currentTitles now)"

section \<open>Lock policy\<close>

text \<open>The filter predicate of \<^verbatim>\<open>processChatAndDoc\<close>:
  \<^verbatim>\<open>s.locked || (Date.now() - s.editedAt < 1000 * 60 * 2 && s.editedAt > 0)\<close>.
  The subtraction is the one of JavaScript numbers, so it is taken in the integers.\<close>

definition isLocked :: "SectionMeta \<Rightarrow> nat \<Rightarrow> bool" where
  "isLocked s now =
     (locked s \<or> (int now - int (editedAt s) < 1000 * 60 * 2 \<and> editedAt s > 0))"

definition lockedSections :: "SectionMeta list \<Rightarrow> nat \<Rightarrow> string list" where
  "lockedSections sectionsMeta now = map id' (filter (\<lambda>s. isLocked s now) sectionsMeta)"

section \<open>The document session\<close>

record DocumentState =
  markdown :: string
  json :: node
  sections :: "SectionMeta list"
  lastUpdated :: nat

text \<open>\<^verbatim>\<open>handleDocUpdate\<close>: the updater passed to \<^verbatim>\<open>setDocState\<close>, applied to the state \<open>prev\<close>.\<close>

definition handleDocUpdate :: "string \<Rightarrow> node \<Rightarrow> nat \<Rightarrow> DocumentState \<Rightarrow> DocumentState" where
  "handleDocUpdate newMarkdown newJson now prev =
     (let currentHeaders = extractSections newMarkdown in
      if markdown prev = newMarkdown then prev
      else prev\<lparr>markdown := newMarkdown, json := newJson, lastUpdated := now,
                sections := reconcileUserEdit (sections prev) currentHeaders now\<rparr>)"

text \<open>The editor's \<^verbatim>\<open>onUpdate\<close>: the edited blocks are serialized and handed to
  \<^verbatim>\<open>handleDocUpdate\<close>.\<close>

definition editorOnUpdate :: "node \<Rightarrow> nat \<Rightarrow> DocumentState \<Rightarrow> DocumentState" where
  "editorOnUpdate editorJson now prev =
     handleDocUpdate (serializeToMarkdown editorJson) editorJson now prev"




section \<open>Blocks of the supported subset\<close>

text \<open>
  The blocks of the specification's data model, and the JSON node that stands for each: the
  shape the editor emits for it and the parser builds.
\<close>

datatype block =
  Heading nat string
| Paragraph string
| BulletList "string list"
| OrderedList "string list"
| CodeBlock string
| Blockquote string
| Divider

fun toJSON :: "block \<Rightarrow> node" where
  "toJSON (Heading level t) = headingNode level t"
| "toJSON (Paragraph t) = paragraphNode t"
| "toJSON (BulletList items) = listNode ''bulletList'' (map listItemNode items)"
| "toJSON (OrderedList items) = listNode ''orderedList'' (map listItemNode items)"
| "toJSON (CodeBlock t) = codeBlockNode t"
| "toJSON (Blockquote t) = blockquoteNode t"
| "toJSON Divider = horizontalRuleNode"

text \<open>
  A text that fits on one line of Markdown and comes back as it is: not empty, no line
  feed, no white space at its end.
\<close>

definition lineText :: "string \<Rightarrow> bool" where
  "lineText t \<longleftrightarrow> t \<noteq> [] \<and> CHR 0x0A \<notin> set t \<and> \<not> is_space (last t)"

text \<open>A line that the scan files under none of its rules but the last, the paragraph.\<close>

definition plainLine :: "string \<Rightarrow> bool" where
  "plainLine t \<longleftrightarrow>
     \<not> startsWith t ''#'' \<and> \<not> startsWith t ''- '' \<and> \<not> startsWith t ''* '' \<and>
     \<not> orderedPrefix t \<and> \<not> startsWith t ''> '' \<and> \<not> startsWith t ''```'' \<and>
     t \<noteq> ''---'' \<and> t \<noteq> ''***''"

text \<open>The condition on one block.\<close>

fun roundTripBlock :: "block \<Rightarrow> bool" where
  "roundTripBlock (Heading level t) = (0 < level \<and> lineText t)"
| "roundTripBlock (Paragraph t) = (lineText t \<and> plainLine t)"
| "roundTripBlock (BulletList items) = (items \<noteq> [] \<and> list_all lineText items)"
| "roundTripBlock (OrderedList items) = (items \<noteq> [] \<and> list_all lineText items)"
| "roundTripBlock (CodeBlock t) = (trim t = t \<and> list_all notFence (split_nl t))"
| "roundTripBlock (Blockquote t) = lineText t"
| "roundTripBlock Divider = True"

text \<open>
  No list follows a list of its own kind with nothing or only headings between the two;
  \<open>k\<close> is the kind of the list that is still open, if any.
\<close>

fun listsSeparated :: "string option \<Rightarrow> block list \<Rightarrow> bool" where
  "listsSeparated k [] = True"
| "listsSeparated k (Heading level t # bs) = listsSeparated k bs"
| "listsSeparated k (BulletList items # bs) =
     (k \<noteq> Some ''bulletList'' \<and> listsSeparated (Some ''bulletList'') bs)"
| "listsSeparated k (OrderedList items # bs) =
     (k \<noteq> Some ''orderedList'' \<and> listsSeparated (Some ''orderedList'') bs)"
| "listsSeparated k (b # bs) = listsSeparated None bs"

text \<open>A paragraph at the head of the document does not start with white space.\<close>

fun notIndented :: "block list \<Rightarrow> bool" where
  "notIndented (Paragraph t # bs) = (\<not> is_space (hd t))"
| "notIndented bs = True"

definition roundTrippable :: "block list \<Rightarrow> bool" where
  "roundTrippable bs \<longleftrightarrow> list_all roundTripBlock bs \<and> listsSeparated None bs \<and> notIndented bs"

text \<open>The lines that the serializer writes for a block, and for a document, where a blank
  line stands between two blocks.\<close>

fun numberedText :: "nat \<Rightarrow> string list \<Rightarrow> string list" where
  "numberedText i [] = []"
| "numberedText i (t # ts) = (decimal (i + 1) @ ''. '' @ t) # numberedText (i + 1) ts"

definition bulletLine :: "string \<Rightarrow> string" where
  "bulletLine t = ''- '' @ t"

fun blockLines :: "block \<Rightarrow> string list" where
  "blockLines (Heading level t) = [replicate level (CHR ''#'') @ '' '' @ t]"
| "blockLines (Paragraph t) = [t]"
| "blockLines (BulletList items) = map bulletLine items"
| "blockLines (OrderedList items) = numberedText 0 items"
| "blockLines (CodeBlock t) = ''```'' # split_nl t @ [''```'']"
| "blockLines (Blockquote t) = [''> '' @ t]"
| "blockLines Divider = [''---'']"

fun sepLines :: "block list \<Rightarrow> string list" where
  "sepLines [] = []"
| "sepLines [b] = blockLines b"
| "sepLines (b # b' # bs) = blockLines b @ [[]] @ sepLines (b' # bs)"

text \<open>
  The scan's \<^verbatim>\<open>currentList\<close>, when set, points into \<^verbatim>\<open>content\<close> at a list of kind \<open>k\<close>.
\<close>

definition tracks :: "string option \<Rightarrow> node list \<Rightarrow> nat option \<Rightarrow> bool" where
  "tracks k cont cur \<longleftrightarrow>
     (case cur of None \<Rightarrow> True | Some j \<Rightarrow> j < length cont \<and> k = Some (node_type (cont ! j)))"

section \<open>Facts about strings\<close>

lemma trimEnd_Nil [simp]: "trimEnd [] = []"
  by (simp add: trimEnd_def)

lemma trimEnd_Cons:
  "trimEnd (c # s) = (if trimEnd s = [] \<and> is_space c then [] else c # trimEnd s)"
  by (auto simp: trimEnd_def dropWhile_append dropWhile_eq_Nil_conv)

lemma trimEnd_append_keep: "trimEnd b \<noteq> [] \<Longrightarrow> trimEnd (a @ b) = a @ trimEnd b"
  by (induction a) (simp_all add: trimEnd_Cons)


lemma split_nl_no_newline: "CHR 0x0A \<notin> set s \<Longrightarrow> split_nl s = [s]"
  by (induction s) auto

lemma takeWhile_hash_run:
  "r = [] \<or> hd r \<noteq> CHR ''#'' \<Longrightarrow>
   takeWhile (\<lambda>c. c = CHR ''#'') (replicate n (CHR ''#'') @ r) = replicate n (CHR ''#'')"
  by (induction n) (auto simp: takeWhile_eq_Nil_iff)

lemma dropWhile_hash_run:
  "r = [] \<or> hd r \<noteq> CHR ''#'' \<Longrightarrow>
   dropWhile (\<lambda>c. c = CHR ''#'') (replicate n (CHR ''#'') @ r) = r"
  by (induction n) (auto simp: dropWhile_eq_self_iff)

lemma split_nl_nonempty [simp]: "split_nl s \<noteq> []"
  by (induction s) (auto split: list.splits)

lemma split_nl_line:
  "CHR 0x0A \<notin> set a \<Longrightarrow> split_nl (a @ CHR 0x0A # b) = a # split_nl b"
  by (induction a) auto

lemma split_nl_join:
  "ls \<noteq> [] \<Longrightarrow> \<forall>l \<in> set ls. CHR 0x0A \<notin> set l \<Longrightarrow> split_nl (join [CHR 0x0A] ls) = ls"
  by (induction "[CHR 0x0A]" ls rule: join.induct) (simp_all add: split_nl_no_newline split_nl_line)

lemma join_split_nl: "join [CHR 0x0A] (split_nl s) = s"
proof (induction s)
  case Nil
  show ?case by simp
next
  case (Cons c s)
  obtain l ls where sp: "split_nl s = l # ls"
    by (cases "split_nl s") simp_all
  with Cons show ?case
    by (cases ls) auto
qed

lemma split_nl_no_nl: "l \<in> set (split_nl s) \<Longrightarrow> CHR 0x0A \<notin> set l"
  by (induction s arbitrary: l) (auto split: list.splits if_splits)

lemma join_Cons: "ys \<noteq> [] \<Longrightarrow> join sep (x # ys) = x @ sep @ join sep ys"
  by (cases ys) simp_all

lemma join_append:
  "xs \<noteq> [] \<Longrightarrow> ys \<noteq> [] \<Longrightarrow> join sep (xs @ ys) = join sep xs @ sep @ join sep ys"
  by (induction sep xs rule: join.induct) (simp_all add: join_Cons)

lemma unlines_join:
  "ls \<noteq> [] \<Longrightarrow> concat (map (\<lambda>l. l @ [CHR 0x0A]) ls) = join [CHR 0x0A] ls @ [CHR 0x0A]"
  by (induction "[CHR 0x0A]" ls rule: join.induct) simp_all

lemma hd_join: "ls \<noteq> [] \<Longrightarrow> hd ls \<noteq> [] \<Longrightarrow> hd (join sep ls) = hd (hd ls)"
  by (induction sep ls rule: join.induct) simp_all

lemma join_nonempty_last: "ls \<noteq> [] \<Longrightarrow> last ls \<noteq> [] \<Longrightarrow> join sep ls \<noteq> []"
  by (induction sep ls rule: join.induct) simp_all

lemma last_join: "ls \<noteq> [] \<Longrightarrow> last ls \<noteq> [] \<Longrightarrow> last (join sep ls) = last (last ls)"
proof (induction sep ls rule: join.induct)
  case (3 sep x y ys)
  then have "join sep (y # ys) \<noteq> []"
    by (intro join_nonempty_last) simp_all
  with 3 show ?case by simp
qed simp_all

lemma join_nonempty: "ls \<noteq> [] \<Longrightarrow> hd ls \<noteq> [] \<Longrightarrow> join sep ls \<noteq> []"
  by (induction sep ls rule: join.induct) simp_all

lemma trimEnd_snoc_space: "is_space c \<Longrightarrow> trimEnd (s @ [c]) = trimEnd s"
  by (simp add: trimEnd_def)

lemma trimEnd_id: "s \<noteq> [] \<Longrightarrow> \<not> is_space (last s) \<Longrightarrow> trimEnd s = s"
  by (cases s rule: rev_cases) (simp_all add: trimEnd_def)

lemma trimStart_id: "s \<noteq> [] \<Longrightarrow> \<not> is_space (hd s) \<Longrightarrow> trimStart s = s"
  by (cases s) (simp_all add: trimStart_def)

lemma is_space_nl [simp]: "is_space (CHR 0x0A)"
  by (simp add: is_space_def)

lemma trim_blank_line:
  "s \<noteq> [] \<Longrightarrow> \<not> is_space (hd s) \<Longrightarrow> \<not> is_space (last s) \<Longrightarrow>
   trim (s @ [CHR 0x0A, CHR 0x0A]) = s"
proof -
  assume s: "s \<noteq> []" "\<not> is_space (hd s)" "\<not> is_space (last s)"
  have "trimEnd (s @ [CHR 0x0A, CHR 0x0A]) = trimEnd ((s @ [CHR 0x0A]) @ [CHR 0x0A])"
    by simp
  also have "\<dots> = trimEnd (s @ [CHR 0x0A])"
    by (rule trimEnd_snoc_space) simp
  also have "\<dots> = trimEnd s"
    by (rule trimEnd_snoc_space) simp
  also have "\<dots> = s"
    using s by (simp add: trimEnd_id)
  finally show ?thesis
    using s by (simp add: trim_def trimStart_id)
qed

lemma trim_snoc_nl: "trim (s @ [CHR 0x0A]) = trim s"
  by (simp add: trim_def trimEnd_snoc_space)

lemma digit_char:
  assumes "(k::nat) < 10"
  shows "is_digit (char_of (48 + k))"
proof -
  have "list_all (\<lambda>k. is_digit (char_of (48 + k))) [0..<10]"
    by code_simp
  with assms show ?thesis
    by (simp add: list_all_iff)
qed

lemma decimal_digits: "list_all is_digit (decimal n)"
  by (induction n rule: decimal.induct) (subst decimal.simps, simp add: digit_char)

lemma decimal_nonempty: "decimal n \<noteq> []"
  by (subst decimal.simps) simp

lemma takeWhile_digits:
  "list_all is_digit ds \<Longrightarrow> \<not> is_digit c \<Longrightarrow> takeWhile is_digit (ds @ c # r) = ds"
  by (induction ds) simp_all

lemma dropWhile_digits:
  "list_all is_digit ds \<Longrightarrow> \<not> is_digit c \<Longrightarrow> dropWhile is_digit (ds @ c # r) = c # r"
  by (induction ds) simp_all

section \<open>Properties of section extraction\<close>

lemma startsWith_Nil [simp]: "startsWith s []"
  by (simp add: startsWith_def)

lemma startsWith_Nil_Cons [simp]: "\<not> startsWith [] (p # ps)"
  by (simp add: startsWith_def)

lemma startsWith_Cons [simp]: "startsWith (c # s) (p # ps) \<longleftrightarrow> c = p \<and> startsWith s ps"
  by (auto simp: startsWith_def)




section \<open>Properties of the lock policy\<close>

text \<open>
  C3. A section is locked exactly when its flag is set, or its \<open>editedAt\<close> is not zero and
  less than two minutes (120000 ms) lie between it and \<open>now\<close>. A section whose flag is set
  is locked at every time, and a section with the flag unset and \<open>editedAt = 0\<close> is locked
  at no time.
\<close>

theorem isLocked_iff:
  "(isLocked s now \<longleftrightarrow> locked s \<or> (editedAt s \<noteq> 0 \<and> int now - int (editedAt s) < 120000))
   \<and> isLocked (s\<lparr>locked := True\<rparr>) now
   \<and> \<not> isLocked (s\<lparr>locked := False, editedAt := 0\<rparr>) now"
  by (auto simp: isLocked_def)

section \<open>Properties of reconciliation\<close>

lemma find_id_Some: "find (\<lambda>s. id' s = h) prev = Some p \<Longrightarrow> id' p = h"
  by (induction prev) (auto split: if_splits)

text \<open>
  C2. The reconciled list has one entry per current title, in the order of the titles. The
  entry of a title that has a previous entry (the first with that id) keeps its id and its
  locked flag, and its \<open>editedAt\<close> becomes \<open>now\<close> when the edit is the user's and stays as it
  was when the document was rewritten by the model. The entry of a title without a previous
  entry is \<open>{id: title, editedAt: now, locked: false}\<close>.
\<close>

theorem reconcile_preserves_identity:
  "map id' (reconcile prev titles now byUser) = titles \<and>
   (\<forall>i < length titles.
      case find (\<lambda>s. id' s = titles ! i) prev of
        Some p \<Rightarrow>
          id' (reconcile prev titles now byUser ! i) = id' p \<and>
          locked (reconcile prev titles now byUser ! i) = locked p \<and>
          editedAt (reconcile prev titles now byUser ! i) = (if byUser then now else editedAt p)
      | None \<Rightarrow>
          reconcile prev titles now byUser ! i
            = \<lparr>id' = titles ! i, editedAt = now, locked = False\<rparr>)"
proof
  have "id' (case find (\<lambda>s. id' s = h) prev of
               Some existing \<Rightarrow> existing\<lparr>editedAt := now\<rparr>
             | None \<Rightarrow> \<lparr>id' = h, editedAt = now, locked = False\<rparr>) = h" for h
    by (auto split: option.splits dest: find_id_Some)
  moreover have "id' (case find (\<lambda>s. id' s = h) prev of
               Some existing \<Rightarrow> existing
             | None \<Rightarrow> \<lparr>id' = h, editedAt = now, locked = False\<rparr>) = h" for h
    by (auto split: option.splits dest: find_id_Some)
  ultimately show "map id' (reconcile prev titles now byUser) = titles"
    by (simp add: reconcile_def reconcileUserEdit_def reconcileAIEdit_def map_idI comp_def)
next
  show "\<forall>i < length titles.
      case find (\<lambda>s. id' s = titles ! i) prev of
        Some p \<Rightarrow>
          id' (reconcile prev titles now byUser ! i) = id' p \<and>
          locked (reconcile prev titles now byUser ! i) = locked p \<and>
          editedAt (reconcile prev titles now byUser ! i) = (if byUser then now else editedAt p)
      | None \<Rightarrow>
          reconcile prev titles now byUser ! i
            = \<lparr>id' = titles ! i, editedAt = now, locked = False\<rparr>"
    by (simp add: reconcile_def reconcileUserEdit_def reconcileAIEdit_def
        split: option.splits)
qed

theorem reconcile_preserves_identity_witness:
  "map id' (reconcile [\<lparr>id' = ''Problem'', editedAt = 5, locked = True\<rparr>] [''Problem'', ''Team''] 9 False)
     = [''Problem'', ''Team'']
   \<and> locked (reconcile [\<lparr>id' = ''Problem'', editedAt = 5, locked = True\<rparr>]
                 [''Problem'', ''Team''] 9 False ! 0)
   \<and> editedAt (reconcile [\<lparr>id' = ''Problem'', editedAt = 5, locked = True\<rparr>]
                 [''Problem'', ''Team''] 9 False ! 0) = 5
   \<and> editedAt (reconcile [\<lparr>id' = ''Problem'', editedAt = 5, locked = True\<rparr>]
                 [''Problem'', ''Team''] 9 True ! 0) = 9
   \<and> reconcile [\<lparr>id' = ''Problem'', editedAt = 5, locked = True\<rparr>]
                 [''Problem'', ''Team''] 9 False ! 1
       = \<lparr>id' = ''Team'', editedAt = 9, locked = False\<rparr>"
proof -
  let ?prev = "[\<lparr>id' = ''Problem'', editedAt = 5, locked = True\<rparr>]"
  let ?titles = "[''Problem'', ''Team'']"
  note ai = reconcile_preserves_identity [of ?prev ?titles 9 False]
  note user = reconcile_preserves_identity [of ?prev ?titles 9 True]
  have f0: "find (\<lambda>s. id' s = ?titles ! 0) ?prev = Some \<lparr>id' = ''Problem'', editedAt = 5, locked = True\<rparr>"
    by simp
  have f1: "find (\<lambda>s. id' s = ?titles ! 1) ?prev = None"
    by simp
  from ai have a: "map id' (reconcile ?prev ?titles 9 False) = ?titles"
    by (rule conjunct1)
  from ai [THEN conjunct2, rule_format, of 0] f0
  have b: "locked (reconcile ?prev ?titles 9 False ! 0)
     \<and> editedAt (reconcile ?prev ?titles 9 False ! 0) = 5"
    by simp
  from user [THEN conjunct2, rule_format, of 0] f0
  have c: "editedAt (reconcile ?prev ?titles 9 True ! 0) = 9"
    by simp
  from ai [THEN conjunct2, rule_format, of 1] f1
  have d: "reconcile ?prev ?titles 9 False ! 1 = \<lparr>id' = ''Team'', editedAt = 9, locked = False\<rparr>"
    by simp
  from a b c d show ?thesis by blast
qed

section \<open>Properties of the document session\<close>

text \<open>
  C8. When the blocks of a user edit serialize to the markdown the session already holds,
  the editor's update returns the session as it is: no field changes, neither
  \<open>lastUpdated\<close> nor any section's \<open>editedAt\<close>.
\<close>

theorem user_edit_noop:
  "serializeToMarkdown blocks = markdown s \<Longrightarrow> editorOnUpdate blocks now s = s"
  by (simp add: editorOnUpdate_def handleDocUpdate_def)



theorem user_edit_noop_witness:
  "serializeToMarkdown (docNode [headingNode 1 ''A''])
     = markdown \<lparr>markdown = ''# A'', json = docNode [headingNode 1 ''A''],
                 sections = [\<lparr>id' = ''A'', editedAt = 3, locked = False\<rparr>], lastUpdated = 7\<rparr>
   \<and> editorOnUpdate (docNode [headingNode 1 ''A'']) 99
       \<lparr>markdown = ''# A'', json = docNode [headingNode 1 ''A''],
        sections = [\<lparr>id' = ''A'', editedAt = 3, locked = False\<rparr>], lastUpdated = 7\<rparr>
     = \<lparr>markdown = ''# A'', json = docNode [headingNode 1 ''A''],
        sections = [\<lparr>id' = ''A'', editedAt = 3, locked = False\<rparr>], lastUpdated = 7\<rparr>"
proof -
  let ?s = "\<lparr>markdown = ''# A'', json = docNode [headingNode 1 ''A''],
             sections = [\<lparr>id' = ''A'', editedAt = 3, locked = False\<rparr>], lastUpdated = 7\<rparr>"
  have h: "serializeToMarkdown (docNode [headingNode 1 ''A'']) = markdown ?s"
    by (simp add: serializeToMarkdown_def serializeBlock_def docNode_def headingNode_def
        textNode_def trim_def trimStart_def trimEnd_def is_space_def)
  from user_edit_noop [OF h, of 99] h show ?thesis by simp
qed



section \<open>Properties of the serializer\<close>

lemma wrapMark_delimiter: "wrapMark m t = delimiter m @ t @ delimiter m"
  by (simp add: wrapMark_def delimiter_def)

lemma fold_wrapMark:
  "fold wrapMark ms t = concat (map delimiter (rev ms)) @ t @ concat (map delimiter ms)"
  by (induction ms arbitrary: t) (simp_all add: wrapMark_delimiter)

text \<open>
  C6, as stated, fails: the wrapping follows the stored order of the marks, so the same two
  marks in the two orders give two different texts.
\<close>

theorem marks_order_counterexample:
  "serializeRun (Node ''text'' None (Some ''x'') (Some [Mark ''code'', Mark ''bold'']) None)
     = ''**`x`**''
   \<and> serializeRun (Node ''text'' None (Some ''x'') (Some [Mark ''code'', Mark ''bold'']) None)
     \<noteq> serializeRun (Node ''text'' None (Some ''x'') (Some [Mark ''bold'', Mark ''code'']) None)"
  by (simp add: serializeRun_def wrapMark_def)

text \<open>
  C6, amended. The marks of a run are applied in the order in which the run stores them,
  the first innermost: the text is preceded by the delimiters of the marks in reverse
  stored order and followed by them in stored order.
\<close>

theorem marks_wrap_in_stored_order:
  "serializeRun (Node ''text'' None (Some t) (Some ms) None)
     = concat (map delimiter (rev ms)) @ t @ concat (map delimiter ms)
   \<and> serializeToMarkdown
       (docNode [Node ''paragraph'' None None None
                   (Some [Node ''text'' None (Some ''x'') (Some [Mark ''code'', Mark ''bold'']) None])])
     = ''**`x`**''"
  by (simp add: serializeRun_def fold_wrapMark)
    (simp add: serializeToMarkdown_def serializeBlock_def docNode_def serializeRun_def wrapMark_def
      trim_def trimStart_def trimEnd_def is_space_def)

text \<open>
  C9, as stated, fails in its second half: the serializer trims its output, so the blank
  line after a document's last block is not part of the result.
\<close>

theorem heading_example_counterexample:
  "serializeToMarkdown (docNode [headingNode 3 ''Hello'']) \<noteq> ''### Hello'' @ [CHR 0x0A, CHR 0x0A]"
  by (simp add: serializeToMarkdown_def serializeBlock_def docNode_def headingNode_def
        textNode_def trim_def trimStart_def trimEnd_def is_space_def)

lemma numeral_replicate3: "replicate 3 x = [x, x, x]"
  by (simp add: numeral_3_eq_3)

text \<open>
  C9, amended. The line \<open>### Hello\<close> parses to a heading of level 3 with text \<open>Hello\<close>.
  The rule for a heading block renders it as \<open>### Hello\<close> and a blank line, and
  \<open>serializeToMarkdown\<close> of the document with this one block returns \<open>### Hello\<close>, the
  blank line trimmed.
\<close>

theorem heading_example:
  "parseMarkdownToJSON ''### Hello'' = docNode [headingNode 3 ''Hello'']
   \<and> serializeBlock (headingNode 3 ''Hello'') = ''### Hello'' @ [CHR 0x0A, CHR 0x0A]
   \<and> serializeToMarkdown (docNode [headingNode 3 ''Hello'']) = ''### Hello''"
proof (intro conjI)
  show "parseMarkdownToJSON ''### Hello'' = docNode [headingNode 3 ''Hello'']"
    by (simp add: parseMarkdownToJSON_def trimEnd_def is_space_def headingLevel_def
        stripHashes_def numeral_3_eq_3)
  show "serializeBlock (headingNode 3 ''Hello'') = ''### Hello'' @ [CHR 0x0A, CHR 0x0A]"
    by (simp add: serializeBlock_def headingNode_def textNode_def numeral_replicate3)
  show "serializeToMarkdown (docNode [headingNode 3 ''Hello'']) = ''### Hello''"
    by (simp add: serializeToMarkdown_def serializeBlock_def docNode_def headingNode_def
        textNode_def trim_def trimStart_def trimEnd_def is_space_def numeral_replicate3)
qed


section \<open>Properties of the parser\<close>

lemma parseLines_blank:
  "trimEnd raw = [] \<Longrightarrow> parseLines cont cur (raw # rest) = parseLines cont cur rest"
  by simp

lemma parseLines_heading:
  "trimEnd raw \<noteq> [] \<Longrightarrow> startsWith (trimEnd raw) ''#'' \<Longrightarrow>
   parseLines cont cur (raw # rest)
     = parseLines (cont @ [headingNode (headingLevel (trimEnd raw)) (stripHashes (trimEnd raw))])
         cur rest"
  by (simp add: Let_def)







section \<open>The round trip\<close>

subsection \<open>One line of the scan\<close>

lemma parseLines_bullet:
  assumes "trimEnd raw = line" "line \<noteq> []" "\<not> startsWith line ''#''"
    "startsWith line ''- '' \<or> startsWith line ''* ''"
  shows "parseLines cont cur (raw # rest) =
     (case openList ''bulletList'' cont cur of
        (cont', j) \<Rightarrow>
          parseLines
            (pushItem cont' j (listItemNode (replaceLead (\<lambda>c. c = CHR ''-'' \<or> c = CHR ''*'') line)))
            (Some j) rest)"
  using assms by (simp add: Let_def)

lemma parseLines_ordered:
  assumes "trimEnd raw = line" "line \<noteq> []" "\<not> startsWith line ''#''"
    "\<not> startsWith line ''- ''" "\<not> startsWith line ''* ''" "orderedPrefix line"
  shows "parseLines cont cur (raw # rest) =
     (case openList ''orderedList'' cont cur of
        (cont', j) \<Rightarrow>
          parseLines (pushItem cont' j (listItemNode (stripOrdered line))) (Some j) rest)"
  using assms by (simp add: Let_def)

lemma parseLines_quote:
  assumes "trimEnd raw = line" "line \<noteq> []" "\<not> startsWith line ''#''"
    "\<not> startsWith line ''- ''" "\<not> startsWith line ''* ''" "\<not> orderedPrefix line"
    "startsWith line ''> ''"
  shows "parseLines cont cur (raw # rest) =
     parseLines (cont @ [blockquoteNode (replaceLead (\<lambda>c. c = CHR ''>'') line)]) None rest"
  using assms by (simp add: Let_def)

lemma parseLines_code:
  assumes "trimEnd raw = line" "line \<noteq> []" "\<not> startsWith line ''#''"
    "\<not> startsWith line ''- ''" "\<not> startsWith line ''* ''" "\<not> orderedPrefix line"
    "\<not> startsWith line ''> ''" "startsWith line ''```''"
  shows "parseLines cont cur (raw # rest) =
     parseLines
       (cont @ [codeBlockNode
                  (trim (concat (map (\<lambda>l. l @ [CHR 0x0A]) (takeWhile notFence rest))))])
       None (drop 1 (dropWhile notFence rest))"
  using assms by (simp add: Let_def)

lemma parseLines_rule:
  assumes "trimEnd raw = line" "line \<noteq> []" "\<not> startsWith line ''#''"
    "\<not> startsWith line ''- ''" "\<not> startsWith line ''* ''" "\<not> orderedPrefix line"
    "\<not> startsWith line ''> ''" "\<not> startsWith line ''```''" "line = ''---'' \<or> line = ''***''"
  shows "parseLines cont cur (raw # rest) = parseLines (cont @ [horizontalRuleNode]) None rest"
  using assms by (simp add: Let_def)

lemma parseLines_paragraph:
  assumes "trimEnd raw = line" "line \<noteq> []" "plainLine line"
  shows "parseLines cont cur (raw # rest) = parseLines (cont @ [paragraphNode line]) None rest"
  using assms by (simp add: Let_def plainLine_def)

declare parseLines.simps(2) [simp del]

lemma lineText_trimEnd: "lineText t \<Longrightarrow> trimEnd (p @ t) = p @ t"
  by (rule trimEnd_id) (simp_all add: lineText_def)

lemma lineText_nonempty: "lineText t \<Longrightarrow> t \<noteq> []"
  by (simp add: lineText_def)

lemma digit_not_space: "is_digit c \<Longrightarrow> \<not> is_space c"
  by (auto simp: is_digit_def is_space_def)

lemma startsWith_single: "startsWith l [c] \<longleftrightarrow> l \<noteq> [] \<and> hd l = c"
  by (cases l) auto

lemma startsWith_pair: "startsWith l [c, d] \<Longrightarrow> l \<noteq> [] \<and> hd l = c"
  by (cases l) auto

lemma hd_decimal_digit: "is_digit (hd (decimal n @ r))"
  using decimal_digits [of n] decimal_nonempty [of n]
  by (cases "decimal n") simp_all

subsection \<open>A heading line\<close>

lemma heading_line:
  assumes "0 < n" "lineText t"
  shows "parseLines cont cur ((replicate n (CHR ''#'') @ '' '' @ t) # rest)
           = parseLines (cont @ [headingNode n t]) cur rest"
proof -
  let ?raw = "replicate n (CHR ''#'') @ '' '' @ t"
  from assms(1) obtain m where m: "n = Suc m" by (cases n) auto
  have line: "trimEnd ?raw = ?raw"
    using lineText_trimEnd [OF assms(2), of "replicate n (CHR ''#'') @ '' ''"] by simp
  have tw: "takeWhile (\<lambda>c. c = CHR ''#'') ?raw = replicate n (CHR ''#'')"
    by (intro takeWhile_hash_run) simp
  have dw: "dropWhile (\<lambda>c. c = CHR ''#'') ?raw = '' '' @ t"
    by (intro dropWhile_hash_run) simp
  have "headingLevel ?raw = n"
    using assms(1) tw by (simp add: headingLevel_def)
  moreover have "stripHashes ?raw = t"
    using assms(1) tw dw by (simp add: stripHashes_def is_space_def)
  moreover have "?raw \<noteq> []" "startsWith ?raw ''#''"
    by (simp_all add: m)
  ultimately show ?thesis
    using parseLines_heading [of ?raw cont cur rest] line by simp
qed

subsection \<open>List items\<close>

lemma openList_new:
  "tracks k cont cur \<Longrightarrow> k \<noteq> Some kind \<Longrightarrow>
   openList kind cont cur = (cont @ [listNode kind []], length cont)"
  by (auto simp: tracks_def openList_def split: option.splits)

lemma openList_same:
  "openList kind (cont @ [listNode kind xs]) (Some (length cont))
     = (cont @ [listNode kind xs], length cont)"
  by (simp add: openList_def listNode_def)

lemma pushItem_last:
  "pushItem (cont @ [listNode kind xs]) (length cont) item = cont @ [listNode kind (xs @ [item])]"
  by (simp add: pushItem_def listNode_def)

lemma bullet_line_facts:
  assumes "lineText t"
  shows "trimEnd (''- '' @ t) = ''- '' @ t" "''- '' @ t \<noteq> []" "\<not> startsWith (''- '' @ t) ''#''"
    "startsWith (''- '' @ t) ''- ''"
    "replaceLead (\<lambda>c. c = CHR ''-'' \<or> c = CHR ''*'') (''- '' @ t) = t"
  using lineText_trimEnd [OF assms, of "''- ''"]
  by (simp_all add: replaceLead_def is_space_def)

lemma bullet_first:
  assumes "lineText t" "tracks k cont cur" "k \<noteq> Some ''bulletList''"
  shows "parseLines cont cur ((''- '' @ t) # rest)
           = parseLines (cont @ [listNode ''bulletList'' [listItemNode t]]) (Some (length cont)) rest"
  using parseLines_bullet [OF bullet_line_facts(1-3) [OF assms(1)], of cont cur rest]
    bullet_line_facts(4,5) [OF assms(1)] pushItem_last [of cont "''bulletList''" "[]"]
  by (simp add: openList_new [OF assms(2,3)])

lemma bullet_next:
  assumes "lineText t"
  shows "parseLines (cont @ [listNode ''bulletList'' xs]) (Some (length cont)) ((''- '' @ t) # rest)
           = parseLines (cont @ [listNode ''bulletList'' (xs @ [listItemNode t])])
               (Some (length cont)) rest"
  using parseLines_bullet [OF bullet_line_facts(1-3) [OF assms(1)],
      of "cont @ [listNode ''bulletList'' xs]" "Some (length cont)" rest]
    bullet_line_facts(4,5) [OF assms(1)]
  by (simp add: openList_same pushItem_last)

lemma bullet_items:
  "list_all lineText items \<Longrightarrow>
   parseLines (cont @ [listNode ''bulletList'' xs]) (Some (length cont))
       (map bulletLine items @ rest)
     = parseLines (cont @ [listNode ''bulletList'' (xs @ map listItemNode items)])
         (Some (length cont)) rest"
proof (induction items arbitrary: xs)
  case Nil
  show ?case by simp
next
  case (Cons t ts)
  then have t: "lineText t" and ts: "list_all lineText ts" by simp_all
  have "parseLines (cont @ [listNode ''bulletList'' xs]) (Some (length cont))
          (map bulletLine (t # ts) @ rest)
        = parseLines (cont @ [listNode ''bulletList'' (xs @ [listItemNode t])])
            (Some (length cont)) (map bulletLine ts @ rest)"
    using bullet_next [OF t, of cont xs "map bulletLine ts @ rest"] by (simp add: bulletLine_def)
  also have "\<dots> = parseLines
      (cont @ [listNode ''bulletList'' ((xs @ [listItemNode t]) @ map listItemNode ts)])
      (Some (length cont)) rest"
    by (rule Cons.IH [OF ts])
  finally show ?case by simp
qed

lemma bullet_block:
  assumes "items \<noteq> []" "list_all lineText items" "tracks k cont cur" "k \<noteq> Some ''bulletList''"
  shows "parseLines cont cur (map bulletLine items @ rest)
           = parseLines (cont @ [listNode ''bulletList'' (map listItemNode items)])
               (Some (length cont)) rest"
proof -
  from assms(1) obtain t ts where items: "items = t # ts" by (cases items) auto
  with assms(2) have t: "lineText t" and ts: "list_all lineText ts" by simp_all
  show ?thesis
    using bullet_first [OF t assms(3,4), of "map bulletLine ts @ rest"]
      bullet_items [OF ts, of cont "[listItemNode t]" rest]
    by (simp add: items bulletLine_def)
qed

lemma ordered_line_facts:
  assumes "lineText t"
  shows "trimEnd (decimal n @ ''. '' @ t) = decimal n @ ''. '' @ t"
    "decimal n @ ''. '' @ t \<noteq> []"
    "\<not> startsWith (decimal n @ ''. '' @ t) ''#''"
    "\<not> startsWith (decimal n @ ''. '' @ t) ''- ''"
    "\<not> startsWith (decimal n @ ''. '' @ t) ''* ''"
    "orderedPrefix (decimal n @ ''. '' @ t)"
    "stripOrdered (decimal n @ ''. '' @ t) = t"
proof -
  let ?l = "decimal n @ ''. '' @ t"
  show "trimEnd ?l = ?l"
    using lineText_trimEnd [OF assms, of "decimal n @ ''. ''"] by simp
  show "?l \<noteq> []" by simp
  have hd: "is_digit (hd ?l)" by (rule hd_decimal_digit)
  then show "\<not> startsWith ?l ''#''"
    by (auto simp: startsWith_single is_digit_def)
  from hd show "\<not> startsWith ?l ''- ''"
    by (auto dest!: startsWith_pair simp: is_digit_def)
  from hd show "\<not> startsWith ?l ''* ''"
    by (auto dest!: startsWith_pair simp: is_digit_def)
  have nd: "\<not> is_digit (CHR ''.'')" by (simp add: is_digit_def)
  have tw: "takeWhile is_digit ?l = decimal n"
    using takeWhile_digits [OF decimal_digits nd, of n "'' '' @ t"] by simp
  have dw: "dropWhile is_digit ?l = ''. '' @ t"
    using dropWhile_digits [OF decimal_digits nd, of n "'' '' @ t"] by simp
  show op: "orderedPrefix ?l"
    using tw dw by (simp add: orderedPrefix_def decimal_nonempty is_space_def)
  show "stripOrdered ?l = t"
    using op dw by (simp add: stripOrdered_def)
qed

lemma ordered_first:
  assumes "lineText t" "tracks k cont cur" "k \<noteq> Some ''orderedList''"
  shows "parseLines cont cur ((decimal n @ ''. '' @ t) # rest)
           = parseLines (cont @ [listNode ''orderedList'' [listItemNode t]]) (Some (length cont)) rest"
  using parseLines_ordered [OF ordered_line_facts(1-6) [OF assms(1), of n], of cont cur rest]
    ordered_line_facts(7) [OF assms(1), of n] pushItem_last [of cont "''orderedList''" "[]"]
  by (simp add: openList_new [OF assms(2,3)])

lemma ordered_next:
  assumes "lineText t"
  shows "parseLines (cont @ [listNode ''orderedList'' xs]) (Some (length cont))
             ((decimal n @ ''. '' @ t) # rest)
           = parseLines (cont @ [listNode ''orderedList'' (xs @ [listItemNode t])])
               (Some (length cont)) rest"
  using parseLines_ordered [OF ordered_line_facts(1-6) [OF assms(1), of n],
      of "cont @ [listNode ''orderedList'' xs]" "Some (length cont)" rest]
    ordered_line_facts(7) [OF assms(1), of n]
  by (simp add: openList_same pushItem_last)

lemma ordered_items:
  "list_all lineText items \<Longrightarrow>
   parseLines (cont @ [listNode ''orderedList'' xs]) (Some (length cont))
       (numberedText i items @ rest)
     = parseLines (cont @ [listNode ''orderedList'' (xs @ map listItemNode items)])
         (Some (length cont)) rest"
proof (induction items arbitrary: xs i)
  case Nil
  show ?case by simp
next
  case (Cons t ts)
  then have t: "lineText t" and ts: "list_all lineText ts" by simp_all
  have "parseLines (cont @ [listNode ''orderedList'' xs]) (Some (length cont))
          (numberedText i (t # ts) @ rest)
        = parseLines (cont @ [listNode ''orderedList'' (xs @ [listItemNode t])])
            (Some (length cont)) (numberedText (i + 1) ts @ rest)"
    using ordered_next [OF t, of cont xs "i + 1" "numberedText (i + 1) ts @ rest"] by simp
  also have "\<dots> = parseLines
      (cont @ [listNode ''orderedList'' ((xs @ [listItemNode t]) @ map listItemNode ts)])
      (Some (length cont)) rest"
    by (rule Cons.IH [OF ts])
  finally show ?case by simp
qed

lemma ordered_block:
  assumes "items \<noteq> []" "list_all lineText items" "tracks k cont cur" "k \<noteq> Some ''orderedList''"
  shows "parseLines cont cur (numberedText 0 items @ rest)
           = parseLines (cont @ [listNode ''orderedList'' (map listItemNode items)])
               (Some (length cont)) rest"
proof -
  from assms(1) obtain t ts where items: "items = t # ts" by (cases items) auto
  with assms(2) have t: "lineText t" and ts: "list_all lineText ts" by simp_all
  show ?thesis
    using ordered_first [OF t assms(3,4), of "0 + 1" "numberedText (0 + 1) ts @ rest"]
      ordered_items [OF ts, of cont "[listItemNode t]" "0 + 1" rest]
    by (simp add: items)
qed

subsection \<open>Quotation, code, rule, paragraph\<close>

lemma not_orderedPrefix_hd: "l \<noteq> [] \<Longrightarrow> \<not> is_digit (hd l) \<Longrightarrow> \<not> orderedPrefix l"
  by (cases l) (simp_all add: orderedPrefix_def)

lemma quote_line:
  assumes "lineText t"
  shows "parseLines cont cur ((''> '' @ t) # rest) = parseLines (cont @ [blockquoteNode t]) None rest"
proof -
  let ?l = "''> '' @ t"
  have "trimEnd ?l = ?l"
    using lineText_trimEnd [OF assms, of "''> ''"] by simp
  moreover have "\<not> orderedPrefix ?l"
    by (rule not_orderedPrefix_hd) (simp_all add: is_digit_def)
  moreover have "replaceLead (\<lambda>c. c = CHR ''>'') ?l = t"
    by (simp add: replaceLead_def is_space_def)
  ultimately show ?thesis
    using parseLines_quote [of ?l ?l cont cur rest] by simp
qed

lemma rule_line:
  "parseLines cont cur (''---'' # rest) = parseLines (cont @ [horizontalRuleNode]) None rest"
proof -
  have "trimEnd ''---'' = ''---''"
    by (simp add: trimEnd_def is_space_def)
  moreover have "\<not> orderedPrefix ''---''"
    by (rule not_orderedPrefix_hd) (simp_all add: is_digit_def)
  ultimately show ?thesis
    using parseLines_rule [of "''---''" "''---''" cont cur rest] by simp
qed

lemma paragraph_line:
  assumes "lineText t" "plainLine t"
  shows "parseLines cont cur (t # rest) = parseLines (cont @ [paragraphNode t]) None rest"
  using parseLines_paragraph [of t t cont cur rest] assms lineText_trimEnd [OF assms(1), of "[]"]
  by (simp add: lineText_def)

lemma takeWhile_all: "list_all P xs \<Longrightarrow> \<not> P y \<Longrightarrow> takeWhile P (xs @ y # ys) = xs"
  by (induction xs) simp_all

lemma dropWhile_all: "list_all P xs \<Longrightarrow> \<not> P y \<Longrightarrow> dropWhile P (xs @ y # ys) = y # ys"
  by (induction xs) simp_all

lemma code_lines:
  assumes "trim t = t" "list_all notFence (split_nl t)"
  shows "parseLines cont cur (''```'' # split_nl t @ [''```''] @ rest)
           = parseLines (cont @ [codeBlockNode t]) None rest"
proof -
  have fence: "\<not> notFence ''```''"
    by (simp add: notFence_def)
  have "trimEnd ''```'' = ''```''"
    by (simp add: trimEnd_def is_space_def)
  moreover have "\<not> orderedPrefix ''```''"
    by (rule not_orderedPrefix_hd) (simp_all add: is_digit_def)
  ultimately have "parseLines cont cur (''```'' # split_nl t @ [''```''] @ rest)
      = parseLines
          (cont @ [codeBlockNode (trim (concat (map (\<lambda>l. l @ [CHR 0x0A])
             (takeWhile notFence (split_nl t @ [''```''] @ rest)))))])
          None (drop 1 (dropWhile notFence (split_nl t @ [''```''] @ rest)))"
    using parseLines_code [of "''```''" "''```''" cont cur "split_nl t @ [''```''] @ rest"]
    by simp
  moreover have "takeWhile notFence (split_nl t @ [''```''] @ rest) = split_nl t"
    using takeWhile_all [OF assms(2) fence, of rest] by simp
  moreover have "dropWhile notFence (split_nl t @ [''```''] @ rest) = ''```'' # rest"
    using dropWhile_all [OF assms(2) fence, of rest] by simp
  moreover have "trim (concat (map (\<lambda>l. l @ [CHR 0x0A]) (split_nl t))) = t"
    using assms(1) by (simp add: unlines_join join_split_nl trim_snoc_nl)
  ultimately show ?thesis by simp
qed

subsection \<open>One block\<close>

lemma tracks_None [simp]: "tracks k cont None"
  by (simp add: tracks_def)

lemma tracks_append: "tracks k cont cur \<Longrightarrow> tracks k (cont @ [n]) cur"
  by (auto simp: tracks_def nth_append split: option.splits)

lemma tracks_new_list: "tracks (Some kind) (cont @ [listNode kind xs]) (Some (length cont))"
  by (simp add: tracks_def listNode_def)

lemma block_step:
  assumes "roundTripBlock b" "listsSeparated k (b # bs)" "tracks k cont cur"
  shows "\<exists>k' cur'. listsSeparated k' bs \<and> tracks k' (cont @ [toJSON b]) cur' \<and>
           (\<forall>rest. parseLines cont cur (blockLines b @ rest)
                     = parseLines (cont @ [toJSON b]) cur' rest)"
proof (cases b)
  case (Heading n t)
  with assms show ?thesis
    using heading_line [of n t cont cur]
    by (intro exI [of _ k] exI [of _ cur]) (simp add: tracks_append)
next
  case (Paragraph t)
  with assms show ?thesis
    using paragraph_line [of t cont cur]
    by (intro exI [of _ None]) simp
next
  case (BulletList items)
  with assms show ?thesis
    using bullet_block [of items k cont cur]
    by (intro exI [of _ "Some ''bulletList''"] exI [of _ "Some (length cont)"])
      (simp add: tracks_new_list)
next
  case (OrderedList items)
  with assms show ?thesis
    using ordered_block [of items k cont cur]
    by (intro exI [of _ "Some ''orderedList''"] exI [of _ "Some (length cont)"])
      (simp add: tracks_new_list)
next
  case (CodeBlock t)
  with assms show ?thesis
    using code_lines [of t cont cur]
    by (intro exI [of _ None]) simp
next
  case (Blockquote t)
  with assms show ?thesis
    using quote_line [of t cont cur]
    by (intro exI [of _ None]) simp
next
  case Divider
  with assms show ?thesis
    using rule_line [of cont cur]
    by (intro exI [of _ None]) simp
qed

subsection \<open>The scan of a serialized document\<close>

lemma parse_sepLines:
  "list_all roundTripBlock bs \<Longrightarrow> listsSeparated k bs \<Longrightarrow> tracks k cont cur \<Longrightarrow>
   parseLines cont cur (sepLines bs) = cont @ map toJSON bs"
proof (induction bs arbitrary: k cont cur rule: sepLines.induct)
  case 1
  show ?case by simp
next
  case (2 b)
  then have "roundTripBlock b" by simp
  from block_step [OF this "2.prems"(2,3)]
  obtain cur' where "parseLines cont cur (blockLines b @ []) = parseLines (cont @ [toJSON b]) cur' []"
    by blast
  then show ?case by simp
next
  case (3 b b' bs)
  then have b: "roundTripBlock b" and rest: "list_all roundTripBlock (b' # bs)"
    by simp_all
  from block_step [OF b "3.prems"(2,3)]
  obtain k' cur' where sep: "listsSeparated k' (b' # bs)"
    and tr: "tracks k' (cont @ [toJSON b]) cur'"
    and step: "\<And>rest. parseLines cont cur (blockLines b @ rest)
                 = parseLines (cont @ [toJSON b]) cur' rest"
    by blast
  have "parseLines cont cur (sepLines (b # b' # bs))
        = parseLines (cont @ [toJSON b]) cur' ([] # sepLines (b' # bs))"
    using step [of "[] # sepLines (b' # bs)"] by simp
  also have "\<dots> = parseLines (cont @ [toJSON b]) cur' (sepLines (b' # bs))"
    by (rule parseLines_blank) simp
  also have "\<dots> = (cont @ [toJSON b]) @ map toJSON (b' # bs)"
    by (rule "3.IH" [OF rest sep tr])
  finally show ?case by simp
qed

subsection \<open>The lines of a serialized block\<close>

lemma innerText_listItem [simp]: "innerText (listItemNode t) = t"
  by (simp add: innerText_def listItemNode_def paragraphNode_def textNode_def)

lemma numbered_listItems: "numbered i (map listItemNode items) = numberedText i items"
  by (induction items arbitrary: i) simp_all

lemma serializeBlock_lines:
  assumes "roundTripBlock b"
  shows "serializeBlock (toJSON b) = join [CHR 0x0A] (blockLines b) @ [CHR 0x0A, CHR 0x0A]"
proof (cases b)
  case (Heading n t)
  with assms show ?thesis
    by (simp add: serializeBlock_def headingNode_def textNode_def)
next
  case (Paragraph t)
  with assms show ?thesis
    by (simp add: serializeBlock_def paragraphNode_def textNode_def serializeRun_def lineText_def)
next
  case (BulletList items)
  then show ?thesis
    by (simp add: serializeBlock_def listNode_def bulletLine_def [abs_def] comp_def)
next
  case (OrderedList items)
  then show ?thesis
    by (simp add: serializeBlock_def listNode_def numbered_listItems)
next
  case (CodeBlock t)
  have "join [CHR 0x0A] (''```'' # split_nl t @ [''```''])
        = ''```'' @ [CHR 0x0A] @ join [CHR 0x0A] (split_nl t @ [''```''])"
    by (rule join_Cons) simp
  also have "join [CHR 0x0A] (split_nl t @ [''```''])
        = join [CHR 0x0A] (split_nl t) @ [CHR 0x0A] @ join [CHR 0x0A] [''```'']"
    by (rule join_append) simp_all
  finally have "join [CHR 0x0A] (blockLines (CodeBlock t))
        = ''```'' @ [CHR 0x0A] @ t @ [CHR 0x0A] @ ''```''"
    by (simp add: join_split_nl)
  with CodeBlock show ?thesis
    by (simp add: serializeBlock_def codeBlockNode_def textNode_def)
next
  case (Blockquote t)
  then show ?thesis
    by (simp add: serializeBlock_def blockquoteNode_def innerText_def paragraphNode_def
        textNode_def)
next
  case Divider
  then show ?thesis
    by (simp add: serializeBlock_def horizontalRuleNode_def)
qed

lemma numberedText_nonempty: "items \<noteq> [] \<Longrightarrow> numberedText i items \<noteq> []"
  by (cases items) simp_all

lemma blockLines_nonempty: "roundTripBlock b \<Longrightarrow> blockLines b \<noteq> []"
  by (cases b) (simp_all add: numberedText_nonempty)

lemma decimal_no_nl: "CHR 0x0A \<notin> set (decimal n)"
proof
  assume "CHR 0x0A \<in> set (decimal n)"
  with decimal_digits [of n] have "is_digit (CHR 0x0A)"
    by (simp add: list_all_iff)
  then show False by (simp add: is_digit_def)
qed

lemma numberedText_no_nl:
  "list_all lineText items \<Longrightarrow> list_all (\<lambda>l. CHR 0x0A \<notin> set l) (numberedText i items)"
  by (induction items arbitrary: i) (simp_all add: lineText_def decimal_no_nl)

lemma split_nl_lines: "list_all (\<lambda>l. CHR 0x0A \<notin> set l) (split_nl s)"
  by (simp add: list_all_iff split_nl_no_nl)

lemma bullet_lines_no_nl:
  "list_all lineText items \<Longrightarrow> list_all (\<lambda>l. CHR 0x0A \<notin> set l) (map bulletLine items)"
  by (induction items) (simp_all add: lineText_def bulletLine_def)

lemma blockLines_no_nl:
  assumes "roundTripBlock b"
  shows "list_all (\<lambda>l. CHR 0x0A \<notin> set l) (blockLines b)"
proof (cases b)
  case (BulletList items)
  with assms show ?thesis by (simp add: bullet_lines_no_nl)
next
  case (OrderedList items)
  with assms show ?thesis by (simp add: numberedText_no_nl)
next
  case (CodeBlock t)
  then show ?thesis by (simp add: split_nl_lines)
qed (use assms in \<open>simp_all add: lineText_def\<close>)


lemma last_numberedText:
  "items \<noteq> [] \<Longrightarrow> last (numberedText i items) = decimal (i + length items) @ ''. '' @ last items"
  by (induction items arbitrary: i) (auto simp: numberedText_nonempty)

lemma blockLines_last:
  assumes "roundTripBlock b"
  shows "last (blockLines b) \<noteq> [] \<and> \<not> is_space (last (last (blockLines b)))"
proof (cases b)
  case (BulletList items)
  with assms have "lineText (last items)" "items \<noteq> []"
    by (simp_all add: list_all_iff)
  with BulletList show ?thesis
    by (simp add: last_map bulletLine_def lineText_def)
next
  case (OrderedList items)
  with assms have "lineText (last items)" "items \<noteq> []"
    by (simp_all add: list_all_iff)
  with OrderedList show ?thesis
    by (simp add: last_numberedText lineText_def)
qed (use assms in \<open>simp_all add: lineText_def is_space_def\<close>)

lemma blockLines_hd:
  assumes "roundTripBlock b" "notIndented [b]"
  shows "hd (blockLines b) \<noteq> [] \<and> \<not> is_space (hd (hd (blockLines b)))"
proof (cases b)
  case (Heading n t)
  with assms obtain m where "n = Suc m" by (cases n) auto
  with Heading show ?thesis by (simp add: is_space_def)
next
  case (BulletList items)
  with assms show ?thesis
    by (cases items) (simp_all add: bulletLine_def is_space_def)
next
  case (OrderedList items)
  with assms obtain t ts where "items = t # ts" by (cases items) auto
  with OrderedList show ?thesis
    using hd_decimal_digit [of "0 + 1" "''. '' @ t"] by (simp add: digit_not_space)
qed (use assms in \<open>simp_all add: lineText_def is_space_def\<close>)

subsection \<open>The lines of a serialized document\<close>

lemma sepLines_nonempty: "bs \<noteq> [] \<Longrightarrow> list_all roundTripBlock bs \<Longrightarrow> sepLines bs \<noteq> []"
  by (induction bs rule: sepLines.induct) (simp_all add: blockLines_nonempty)

lemma sepLines_no_nl:
  "list_all roundTripBlock bs \<Longrightarrow> list_all (\<lambda>l. CHR 0x0A \<notin> set l) (sepLines bs)"
  by (induction bs rule: sepLines.induct) (simp_all add: blockLines_no_nl)

lemma sepLines_hd:
  "bs \<noteq> [] \<Longrightarrow> list_all roundTripBlock bs \<Longrightarrow> hd (sepLines bs) = hd (blockLines (hd bs))"
  by (induction bs rule: sepLines.induct) (simp_all add: blockLines_nonempty)

lemma sepLines_last:
  "bs \<noteq> [] \<Longrightarrow> list_all roundTripBlock bs \<Longrightarrow> last (sepLines bs) = last (blockLines (last bs))"
  by (induction bs rule: sepLines.induct) (simp_all add: sepLines_nonempty)

lemma serialize_sepLines:
  "bs \<noteq> [] \<Longrightarrow> list_all roundTripBlock bs \<Longrightarrow>
   concat (map serializeBlock (map toJSON bs)) = join [CHR 0x0A] (sepLines bs) @ [CHR 0x0A, CHR 0x0A]"
proof (induction bs rule: sepLines.induct)
  case 1
  then show ?case by simp
next
  case (2 b)
  then show ?case by (simp add: serializeBlock_lines)
next
  case (3 b b' bs)
  then have b: "roundTripBlock b" and rest: "list_all roundTripBlock (b' # bs)"
    by simp_all
  have "join [CHR 0x0A] (sepLines (b # b' # bs))
        = join [CHR 0x0A] (blockLines b) @ [CHR 0x0A] @ join [CHR 0x0A] ([] # sepLines (b' # bs))"
    using join_append [of "blockLines b" "[] # sepLines (b' # bs)" "[CHR 0x0A]"]
    by (simp add: blockLines_nonempty [OF b])
  also have "join [CHR 0x0A] ([] # sepLines (b' # bs)) = [CHR 0x0A] @ join [CHR 0x0A] (sepLines (b' # bs))"
    using join_Cons [of "sepLines (b' # bs)" "[CHR 0x0A]" "[]"] sepLines_nonempty [OF _ rest]
    by simp
  finally show ?case
    using "3.IH" [OF _ rest] by (simp add: serializeBlock_lines [OF b])
qed

lemma notIndented_hd: "bs \<noteq> [] \<Longrightarrow> notIndented bs \<Longrightarrow> notIndented [hd bs]"
  by (cases bs rule: notIndented.cases) simp_all

lemma split_serialized:
  assumes "bs \<noteq> []" "roundTrippable bs"
  shows "split_nl (serializeToMarkdown (docNode (map toJSON bs))) = sepLines bs"
proof -
  from assms(2) have wf: "list_all roundTripBlock bs" and ni: "notIndented bs"
    by (simp_all add: roundTrippable_def)
  let ?ls = "sepLines bs"
  let ?s = "join [CHR 0x0A] ?ls"
  have ne: "?ls \<noteq> []" by (rule sepLines_nonempty [OF assms(1) wf])
  have "roundTripBlock (hd bs)" "roundTripBlock (last bs)"
    using assms(1) wf by (simp_all add: list_all_iff)
  then have hd: "hd ?ls \<noteq> [] \<and> \<not> is_space (hd (hd ?ls))"
    and last: "last ?ls \<noteq> [] \<and> \<not> is_space (last (last ?ls))"
    using blockLines_hd [OF _ notIndented_hd [OF assms(1) ni]] blockLines_last [of "last bs"]
    by (simp_all add: sepLines_hd [OF assms(1) wf] sepLines_last [OF assms(1) wf])
  have "?s \<noteq> []" "\<not> is_space (hd ?s)" "\<not> is_space (last ?s)"
    using ne hd last by (simp_all add: join_nonempty hd_join last_join)
  then have "trim (?s @ [CHR 0x0A, CHR 0x0A]) = ?s"
    by (rule trim_blank_line)
  then have "serializeToMarkdown (docNode (map toJSON bs)) = ?s"
    using serialize_sepLines [OF assms(1) wf]
    by (simp add: serializeToMarkdown_def docNode_def)
  moreover have "split_nl ?s = ?ls"
    using ne sepLines_no_nl [OF wf] by (intro split_nl_join) (simp_all add: list_all_iff)
  ultimately show ?thesis by simp
qed

text \<open>
  C1, as stated, fails. A paragraph that begins like a heading comes back as a heading; two
  bullet lists in a row, or with a heading between them, come back as one list; white
  space at the end of a text, at the start of the first paragraph or around a code text is
  lost; a heading without text comes back with its hashes as text; an empty paragraph and
  an empty list vanish; a text with a line feed comes back as two blocks.
\<close>

theorem round_trip_counterexample:
  "parseMarkdownToJSON (serializeToMarkdown (docNode (map toJSON [Paragraph ''#1 goal''])))
     = docNode (map toJSON [Heading 1 ''#1 goal''])
   \<and> parseMarkdownToJSON (serializeToMarkdown (docNode (map toJSON [Paragraph ''#1 goal''])))
     \<noteq> docNode (map toJSON [Paragraph ''#1 goal''])
   \<and> parseMarkdownToJSON
       (serializeToMarkdown (docNode (map toJSON [BulletList [''a''], BulletList [''b'']])))
     = docNode (map toJSON [BulletList [''a'', ''b'']])
   \<and> parseMarkdownToJSON
       (serializeToMarkdown
          (docNode (map toJSON [BulletList [''a''], Heading 1 ''H'', BulletList [''b'']])))
     = docNode (map toJSON [BulletList [''a'', ''b''], Heading 1 ''H''])
   \<and> parseMarkdownToJSON (serializeToMarkdown (docNode (map toJSON [Paragraph ''a ''])))
     = docNode (map toJSON [Paragraph ''a''])
   \<and> parseMarkdownToJSON (serializeToMarkdown (docNode (map toJSON [Paragraph '' x''])))
     = docNode (map toJSON [Paragraph ''x''])
   \<and> parseMarkdownToJSON (serializeToMarkdown (docNode (map toJSON [CodeBlock '' x''])))
     = docNode (map toJSON [CodeBlock ''x''])
   \<and> parseMarkdownToJSON (serializeToMarkdown (docNode (map toJSON [Heading 2 []])))
     = docNode (map toJSON [Heading 2 ''##''])
   \<and> parseMarkdownToJSON
       (serializeToMarkdown (docNode (map toJSON [Paragraph [], Paragraph ''x''])))
     = docNode (map toJSON [Paragraph ''x''])
   \<and> parseMarkdownToJSON (serializeToMarkdown (docNode (map toJSON [BulletList []])))
     = docNode (map toJSON [])
   \<and> parseMarkdownToJSON
       (serializeToMarkdown (docNode (map toJSON [Paragraph (''a'' @ [CHR 0x0A] @ ''b'')])))
     = docNode (map toJSON [Paragraph ''a'', Paragraph ''b''])"
  by (intro conjI; code_simp)

text \<open>
  C1, amended. Let every heading have a level of at least 1; every text of a heading, a
  paragraph, a list item or a quotation be non-empty, without line feed and without white
  space at its end; every paragraph text be a line that the parser files under no other
  rule (it starts with no hash, no \<open>- \<close>, \<open>* \<close> or \<open>> \<close>, no digits followed by a dot and
  white space, no three backticks, and is neither \<open>---\<close> nor \<open>***\<close>); every list have an
  item; every code text be trimmed and have no line that starts with three backticks; no
  list follow a list of its kind with nothing or only headings between them; and a
  paragraph that opens the document not start with white space. Then parsing the serialized
  document gives back the document: the same blocks with the same kinds, texts, heading
  levels and order.
\<close>

theorem round_trip:
  assumes "roundTrippable bs"
  shows "parseMarkdownToJSON (serializeToMarkdown (docNode (map toJSON bs))) = docNode (map toJSON bs)"
proof (cases "bs = []")
  case True
  then show ?thesis
    by (simp add: parseMarkdownToJSON_def serializeToMarkdown_def docNode_def trim_def
        trimStart_def trimEnd_def parseLines.simps(2))
next
  case False
  from assms have "list_all roundTripBlock bs" "listsSeparated None bs"
    by (simp_all add: roundTrippable_def)
  then have "parseLines [] None (sepLines bs) = [] @ map toJSON bs"
    by (rule parse_sepLines) simp
  then show ?thesis
    by (simp add: parseMarkdownToJSON_def split_serialized [OF False assms])
qed

theorem round_trip_witness:
  "roundTrippable
     [Heading 1 ''Plan'', Paragraph ''We sell tea.'', BulletList [''a'', ''b''],
      OrderedList [''x'', ''y''], CodeBlock ''let x'', Blockquote ''q'', Divider,
      Heading 3 ''Next'']
   \<and> parseMarkdownToJSON
       (serializeToMarkdown
          (docNode
             (map toJSON
                [Heading 1 ''Plan'', Paragraph ''We sell tea.'', BulletList [''a'', ''b''],
                 OrderedList [''x'', ''y''], CodeBlock ''let x'', Blockquote ''q'', Divider,
                 Heading 3 ''Next''])))
     = docNode
         (map toJSON
            [Heading 1 ''Plan'', Paragraph ''We sell tea.'', BulletList [''a'', ''b''],
             OrderedList [''x'', ''y''], CodeBlock ''let x'', Blockquote ''q'', Divider,
             Heading 3 ''Next''])"
proof -
  have h: "roundTrippable
     [Heading 1 ''Plan'', Paragraph ''We sell tea.'', BulletList [''a'', ''b''],
      OrderedList [''x'', ''y''], CodeBlock ''let x'', Blockquote ''q'', Divider,
      Heading 3 ''Next'']"
    by code_simp
  from h round_trip [OF h] show ?thesis by (rule conjI)
qed

end
